theory Spec2Isabelle
  imports Main "HOL-Library.Sublist"
begin

section \<open>The log-link patch script \<^verbatim>\<open>my_agent/fix_adk_logs_patch.py\<close>\<close>

text \<open>
  The script is a straight-line program: it locates the installed \<^verbatim>\<open>logs.py\<close>, reads
  it, checks a marker, edits the text with two \<^verbatim>\<open>str.replace(..., 1)\<close> calls, writes a
  backup and then the edited text. The embedding below follows it statement by statement.
  The process environment (\<^verbatim>\<open>sys.prefix\<close>, the \<^verbatim>\<open>site\<close> directories, the clock) is an
  explicit argument, the file system is a finite map that is passed in and returned, and
  every \<^verbatim>\<open>sys.exit\<close> and every exception that ends the run is a branch of the model.

  File contents are the text that \<^verbatim>\<open>read_text\<close> returns and \<^verbatim>\<open>write_text\<close> is given
  (a list of characters; every pattern the script looks for is ASCII). A write is assumed
  to succeed. What the script prints is kept as a list of messages.
\<close>

subsection \<open>Text operations of the host language\<close>

text \<open>\<^verbatim>\<open>pat in s\<close> on strings: \<^verbatim>\<open>pat\<close> occurs in \<^verbatim>\<open>s\<close> as a contiguous piece.\<close>

fun contains :: "string \<Rightarrow> string \<Rightarrow> bool" where
  "contains pat [] = (pat = [])"
| "contains pat (x # xs) = (prefix pat (x # xs) \<or> contains pat xs)"

text \<open>\<^verbatim>\<open>s.replace(old, new, 1)\<close>: the leftmost occurrence of \<^verbatim>\<open>old\<close> is replaced, and
  \<^verbatim>\<open>s\<close> is returned as it is when there is none.\<close>

fun replace_first :: "string \<Rightarrow> string \<Rightarrow> string \<Rightarrow> string" where
  "replace_first old new [] = (if old = [] then new else [])"
| "replace_first old new (x # xs) =
     (if prefix old (x # xs) then new @ drop (length old) (x # xs)
      else x # replace_first old new xs)"

subsection \<open>Paths\<close>

text \<open>A \<^verbatim>\<open>pathlib.Path\<close> is its list of components; the last one is the file name.\<close>

type_synonym path = "string list"

datatype error = ValueError | ReadError

definition joinpath :: "path \<Rightarrow> string \<Rightarrow> path" where
  "joinpath p c = p @ [c]"

definition name_path :: "path \<Rightarrow> string" where
  "name_path p = (if p = [] then [] else last p)"

fun rfind :: "char \<Rightarrow> string \<Rightarrow> nat option" where
  "rfind c [] = None"
| "rfind c (x # xs) =
     (case rfind c xs of
        Some i \<Rightarrow> Some (Suc i)
      | None \<Rightarrow> if x = c then Some 0 else None)"

text \<open>\<^verbatim>\<open>PurePath.suffix\<close>: the name from its last dot on, when that dot is neither the
  first nor the last character of the name.\<close>

definition suffix_path :: "path \<Rightarrow> string" where
  "suffix_path p =
     (let name = name_path p in
      case rfind (CHR ''.'') name of
        None \<Rightarrow> []
      | Some i \<Rightarrow> if 0 < i \<and> i < length name - 1 then drop i name else [])"

text \<open>\<^verbatim>\<open>PurePath.with_suffix\<close>: a suffix with a separator in it, one that does not start
  with a dot, the suffix \<^verbatim>\<open>.\<close> and a path with an empty name raise \<^verbatim>\<open>ValueError\<close>.\<close>

definition with_suffix :: "path \<Rightarrow> string \<Rightarrow> error + path" where
  "with_suffix p sfx =
     (if CHR ''/'' \<in> set sfx \<or> CHR 0x5C \<in> set sfx then Inl ValueError
      else if (sfx \<noteq> [] \<and> \<not> prefix ''.'' sfx) \<or> sfx = ''.'' then Inl ValueError
      else let name = name_path p in
        if name = [] then Inl ValueError
        else let old_suffix = suffix_path p in
          Inr (butlast p @
            [if old_suffix = [] then name @ sfx
             else take (length name - length old_suffix) name @ sfx]))"

subsection \<open>The clock\<close>

record datetime =
  year :: nat
  month :: nat
  day :: nat
  hour :: nat
  minute :: nat
  second :: nat

definition digit :: "nat \<Rightarrow> char" where
  "digit n = ''0123456789'' ! n"

fun decimal :: "nat \<Rightarrow> string" where
  "decimal n = (if n < 10 then [digit n] else decimal (n div 10) @ [digit (n mod 10)])"

declare decimal.simps [simp del]

definition zfill :: "nat \<Rightarrow> string \<Rightarrow> string" where
  "zfill w s = replicate (w - length s) (CHR ''0'') @ s"

text \<open>\<^verbatim>\<open>strftime("%Y%m%d_%H%M%S")\<close>: each field in decimal, filled with zeros on the left
  to four digits for the year and to two for the others. (C libraries differ on years
  before 1000; the model fills them, as the platform the script is written for does.)\<close>

definition strftime :: "datetime \<Rightarrow> string" where
  "strftime d =
     zfill 4 (decimal (year d)) @ zfill 2 (decimal (month d)) @ zfill 2 (decimal (day d)) @
     ''_'' @
     zfill 2 (decimal (hour d)) @ zfill 2 (decimal (minute d)) @ zfill 2 (decimal (second d))"

subsection \<open>Environment, file system and the outcome of a run\<close>

record environment =
  sys_prefix :: path
  getsitepackages :: "path list"
  getusersitepackages :: path
  now :: datetime

text \<open>A path that exists holds text, or something \<^verbatim>\<open>read_text\<close> raises on (a directory,
  bytes that are not UTF-8).\<close>

datatype node = Text string | Unreadable

type_synonym filesystem = "path \<rightharpoonup> node"

datatype message =
    TargetFile path
  | CouldNotFind
  | AlreadyApplied
  | PatternNotFound
  | WritingBackup path
  | Patched
  | Advice
  | Traceback error

record outcome =
  files :: filesystem
  writes :: "(path \<times> string) list"
  printed :: "message list"
  exit_status :: nat

definition exists_path :: "filesystem \<Rightarrow> path \<Rightarrow> bool" where
  "exists_path fs p = (fs p \<noteq> None)"

definition start :: "filesystem \<Rightarrow> outcome" where
  "start fs = \<lparr>files = fs, writes = [], printed = [], exit_status = 0\<rparr>"

definition print :: "message \<Rightarrow> outcome \<Rightarrow> outcome" where
  "print m st = st\<lparr>printed := printed st @ [m]\<rparr>"

definition sys_exit :: "nat \<Rightarrow> outcome \<Rightarrow> outcome" where
  "sys_exit n st = st\<lparr>exit_status := n\<rparr>"

text \<open>An exception nobody catches: the interpreter prints the traceback and exits with 1.\<close>

definition uncaught :: "error \<Rightarrow> outcome \<Rightarrow> outcome" where
  "uncaught e st = sys_exit 1 (print (Traceback e) st)"

definition write_text :: "path \<Rightarrow> string \<Rightarrow> outcome \<Rightarrow> outcome" where
  "write_text p s st = st\<lparr>files := (files st)(p \<mapsto> Text s), writes := writes st @ [(p, s)]\<rparr>"

subsection \<open>Locating the target\<close>

definition logs_under :: "path \<Rightarrow> path" where
  "logs_under p =
     joinpath (joinpath (joinpath (joinpath (joinpath p ''google'') ''adk'') ''cli'') ''utils'')
       ''logs.py''"

definition primary :: "environment \<Rightarrow> path" where
  "primary env = logs_under (joinpath (joinpath (sys_prefix env) ''Lib'') ''site-packages'')"

text \<open>The \<^verbatim>\<open>for p in ...\<close> loop with its \<^verbatim>\<open>break\<close>: the first candidate that exists replaces
  the target; when none does, the target stays what it was.\<close>

fun first_candidate :: "filesystem \<Rightarrow> path list \<Rightarrow> path \<Rightarrow> path" where
  "first_candidate fs [] target = target"
| "first_candidate fs (p # ps) target =
     (let candidate = logs_under p in
      if exists_path fs candidate then candidate else first_candidate fs ps target)"

definition locate :: "environment \<Rightarrow> filesystem \<Rightarrow> path" where
  "locate env fs =
     (let target = primary env in
      if \<not> exists_path fs target
      then first_candidate fs (getsitepackages env @ [getusersitepackages env]) target
      else target)"

subsection \<open>The patch\<close>

definition marker :: string where
  "marker = ''fallback to copying the log file''"

definition old_call :: string where
  "old_call = ''os.symlink(log_filepath, latest_log_link)''"

definition new_block :: string where
  "new_block =
     ''try:\<newline>'' @
     ''        if os.path.exists(latest_log_link):\<newline>'' @
     ''            os.remove(latest_log_link)\<newline>'' @
     ''        os.symlink(log_filepath, latest_log_link)\<newline>'' @
     ''    except OSError:\<newline>'' @
     ''        # Windows: creating symlinks requires a privilege; fall back to copying the file.\<newline>'' @
     ''        try:\<newline>'' @
     ''            shutil.copy2(log_filepath, latest_log_link)\<newline>'' @
     ''        except Exception:\<newline>'' @
     ''            # Last resort: ignore copying failure to avoid crashing the CLI.\<newline>'' @
     ''            pass\<newline>''"

text \<open>The first rebinding of \<^verbatim>\<open>orig\<close>: when \<^verbatim>\<open>import shutil\<close> does not occur in the text,
  the first \<^verbatim>\<open>import os\<close> followed by a newline gets an \<^verbatim>\<open>import shutil\<close> line after it.\<close>

definition ensure_shutil :: "string \<Rightarrow> string" where
  "ensure_shutil orig =
     (if \<not> contains ''import shutil'' orig
      then replace_first ''import os\<newline>'' ''import os\<newline>import shutil\<newline>'' orig
      else orig)"

definition fix_adk_logs_patch :: "environment \<Rightarrow> filesystem \<Rightarrow> outcome" where
  "fix_adk_logs_patch env fs =
     (let target = locate env fs;
          st = print (TargetFile target) (start fs) in
      if \<not> exists_path fs target then sys_exit 1 (print CouldNotFind st)
      else
        case fs target of
          Some (Text orig) \<Rightarrow>
            if contains marker orig then sys_exit 0 (print AlreadyApplied st)
            else
              let orig' = ensure_shutil orig in
              if \<not> contains old_call orig' then sys_exit 1 (print PatternNotFound st)
              else
                let new = replace_first old_call new_block orig';
                    stamp = strftime (now env) in
                (case with_suffix target (suffix_path target @ ''.bak_'' @ stamp) of
                   Inl e \<Rightarrow> uncaught e st
                 | Inr backup \<Rightarrow>
                     print Advice (print Patched
                       (write_text target new
                         (write_text backup orig'
                           (print (WritingBackup backup) st)))))
        | _ \<Rightarrow> uncaught ReadError st)"

text \<open>Running the script again on the files the first run left, at a later time.\<close>

definition run_twice :: "environment \<Rightarrow> datetime \<Rightarrow> filesystem \<Rightarrow> outcome \<times> outcome" where
  "run_twice env later fs =
     (let first = fix_adk_logs_patch env fs;
          second = fix_adk_logs_patch (env\<lparr>now := later\<rparr>) (files first)
      in (first, second))"

subsection \<open>Reading a timestamp\<close>

text \<open>What the format \<^verbatim>\<open>YYYYMMDD_HHMMSS\<close> means, stated without the formatting code:
  fifteen characters, an underscore in the ninth place and decimal digits elsewhere, and
  the digit groups read back as the fields of the time.\<close>

definition isdigit :: "char \<Rightarrow> bool" where
  "isdigit c = (c \<in> set ''0123456789'')"




subsection \<open>An installation to run the script on\<close>

definition example_env :: environment where
  "example_env =
     \<lparr>sys_prefix = [''C:'', ''Python311''],
      getsitepackages = [[''C:'', ''Python311''], [''C:'', ''Python311'', ''Lib'', ''site-packages'']],
      getusersitepackages =
        [''C:'', ''Users'', ''dev'', ''AppData'', ''Roaming'', ''Python'', ''site-packages''],
      now = \<lparr>year = 2026, month = 3, day = 7, hour = 9, minute = 30, second = 5\<rparr>\<rparr>"

definition example_target :: path where
  "example_target =
     [''C:'', ''Python311'', ''Lib'', ''site-packages'', ''google'', ''adk'', ''cli'', ''utils'',
      ''logs.py'']"

definition installed :: "string \<Rightarrow> filesystem" where
  "installed text = [example_target \<mapsto> Text text]"

definition elsewhere :: filesystem where
  "elsewhere =
     [[''C:'', ''Python311'', ''Lib'', ''site-packages'', ''google'', ''adk'', ''cli'', ''utils'',
       ''envs.py''] \<mapsto> Text ''import os\<newline>'']"

text \<open>Two excerpts of an unpatched \<^verbatim>\<open>logs.py\<close>: one imports \<^verbatim>\<open>os\<close> on a line of its own,
  the other together with \<^verbatim>\<open>sys\<close>. Neither imports \<^verbatim>\<open>shutil\<close>.\<close>

definition logs_excerpt :: string where
  "logs_excerpt =
     ''import os\<newline>'' @
     ''    os.symlink(log_filepath, latest_log_link)\<newline>''"

definition logs_excerpt_joint :: string where
  "logs_excerpt_joint =
     ''import os, sys\<newline>'' @
     ''    os.symlink(log_filepath, latest_log_link)\<newline>''"

definition a_minute_later :: datetime where
  "a_minute_later = \<lparr>year = 2026, month = 3, day = 7, hour = 9, minute = 31, second = 5\<rparr>"

section \<open>Facts about the text operations\<close>

lemma contains_sublist: "contains pat s = sublist pat s"
  by (induction s) (simp_all add: sublist_Cons_right)

lemma sublist_sep:
  assumes "x \<notin> set pat"
  shows "sublist pat (a @ x # b) \<longleftrightarrow> sublist pat a \<or> sublist pat b"
proof
  assume "sublist pat (a @ x # b)"
  then consider "sublist pat a" | "sublist pat (x # b)"
    | xs1 xs2 where "pat = xs1 @ xs2" "suffix xs1 a" "prefix xs2 (x # b)"
    unfolding sublist_append by blast
  then show "sublist pat a \<or> sublist pat b"
  proof cases
    case 1
    then show ?thesis by simp
  next
    case 2
    with assms show ?thesis
      by (auto simp: sublist_Cons_right prefix_Cons)
  next
    case 3
    with assms have "xs2 = []"
      by (auto simp: prefix_Cons)
    with 3 show ?thesis by auto
  qed
next
  assume "sublist pat a \<or> sublist pat b"
  then show "sublist pat (a @ x # b)"
    by (auto simp: sublist_append sublist_Cons_right)
qed

lemma butlast_last_append: "old \<noteq> [] \<Longrightarrow> butlast old @ last old # post = old @ post"
  by (metis append_butlast_last_id append.assoc append_Cons append_Nil)

lemma sublist_last_out:
  assumes "pat \<noteq> []" "last pat \<notin> set b" "sublist pat (a @ b)"
  shows "sublist pat a"
proof -
  from assms(3) consider "sublist pat a" | "sublist pat b"
    | xs1 xs2 where "pat = xs1 @ xs2" "suffix xs1 a" "prefix xs2 b"
    unfolding sublist_append by blast
  then show ?thesis
  proof cases
    case 1
    then show ?thesis .
  next
    case 2
    then have "set pat \<subseteq> set b" by (rule set_mono_sublist)
    with assms(1,2) show ?thesis using last_in_set by blast
  next
    case 3
    show ?thesis
    proof (cases "xs2 = []")
      case True
      with 3 show ?thesis by auto
    next
      case False
      then have "last pat = last xs2" using 3(1) by simp
      moreover have "last xs2 \<in> set b"
        using False 3(3) set_mono_prefix last_in_set by blast
      ultimately show ?thesis using assms(2) by simp
    qed
  qed
qed

lemma replace_first_unfold:
  "replace_first old new s =
     (if prefix old s then new @ drop (length old) s
      else case s of [] \<Rightarrow> [] | x # xs \<Rightarrow> x # replace_first old new xs)"
  by (cases s) auto

lemma replace_first_absent: "\<not> contains old s \<Longrightarrow> replace_first old new s = s"
  by (induction s) auto

lemma prefix_into_left:
  "prefix old (u @ v) \<Longrightarrow> length old \<le> length u \<Longrightarrow> prefix old u"
  by (metis prefix_length_prefix prefix_prefix prefix_order.order_refl)

lemma replace_first_decomp:
  assumes "old \<noteq> []" "\<not> contains old (pre @ butlast old)"
  shows "replace_first old new (pre @ old @ post) = pre @ new @ post"
  using assms(2)
proof (induction pre)
  case Nil
  then show ?case using assms(1) by (subst replace_first_unfold) simp
next
  case (Cons x pre)
  have "\<not> prefix old (x # pre @ old @ post)"
  proof
    assume p: "prefix old (x # pre @ old @ post)"
    have "x # pre @ old @ post = ((x # pre) @ butlast old) @ (last old # post)"
      using assms(1) by simp
    moreover have "length old \<le> length ((x # pre) @ butlast old)"
      by simp
    ultimately have "prefix old ((x # pre) @ butlast old)"
      using p prefix_into_left by metis
    then show False using Cons.prems by simp
  qed
  moreover have "\<not> contains old (pre @ butlast old)"
    using Cons.prems by simp
  ultimately show ?case using Cons.IH by simp
qed

lemma first_occurrence:
  assumes "old \<noteq> []" "contains old s"
  shows "\<exists>pre post. s = pre @ old @ post \<and> \<not> contains old (pre @ butlast old)"
  using assms(2)
proof (induction s)
  case Nil
  then show ?case using assms(1) by simp
next
  case (Cons x s)
  show ?case
  proof (cases "prefix old (x # s)")
    case True
    then obtain post where "x # s = old @ post" by (auto simp: prefix_def)
    moreover have "\<not> contains old ([] @ butlast old)"
      using assms(1) by (metis contains_sublist sublist_length_le length_butlast append_Nil diff_less length_greater_0_conv less_numeral_extra(1) not_le)
    ultimately show ?thesis by (metis append_Nil)
  next
    case False
    with Cons.prems have "contains old s" by simp
    then obtain pre post where s: "s = pre @ old @ post" and n: "\<not> contains old (pre @ butlast old)"
      using Cons.IH by blast
    have "\<not> contains old ((x # pre) @ butlast old)"
    proof
      assume "contains old ((x # pre) @ butlast old)"
      with n have "prefix old (x # pre @ butlast old)" by simp
      then have "prefix old ((x # pre @ butlast old) @ (last old # post))"
        using prefix_prefix by blast
      then have "prefix old (x # s)" using s assms(1) by (simp add: butlast_last_append)
      with False show False by simp
    qed
    with s show ?thesis by (metis append_Cons)
  qed
qed

section \<open>Facts about the timestamp\<close>


lemma isdigit_digit: "n < 10 \<Longrightarrow> isdigit (digit n)"
  unfolding isdigit_def digit_def by (rule nth_mem) simp

lemma isdigit_zero: "isdigit (CHR ''0'')"
  by (simp add: isdigit_def)




lemma digits_decimal: "list_all isdigit (decimal n)"
proof (induction n rule: decimal.induct)
  case (1 n)
  then show ?case
    by (subst decimal.simps) (simp add: isdigit_digit)
qed



lemma digits_zfill: "list_all isdigit (zfill w (decimal n))"
  using digits_decimal [of n] isdigit_zero by (auto simp: zfill_def list_all_iff)


lemma strftime_chars: "list_all (\<lambda>c. isdigit c \<or> c = CHR ''_'') (strftime d)"
proof -
  have "list_all (\<lambda>c. isdigit c \<or> c = CHR ''_'') (zfill w (decimal n))" for w n
    using digits_zfill [of w n] by (auto simp: list_all_iff)
  then show ?thesis by (simp add: strftime_def)
qed

lemma isdigit_not_sep: "isdigit c \<Longrightarrow> c \<noteq> CHR ''/'' \<and> c \<noteq> CHR 0x5C"
  by (auto simp: isdigit_def)

lemma strftime_no_sep: "CHR ''/'' \<notin> set (strftime d)" "CHR 0x5C \<notin> set (strftime d)"
  using strftime_chars [of d] isdigit_not_sep by (auto simp: list_all_iff)

lemma last_logs_under: "logs_under p \<noteq> [] \<and> last (logs_under p) = ''logs.py''"
  by (simp add: logs_under_def joinpath_def)

lemma first_candidate_name:
  "target \<noteq> [] \<and> last target = ''logs.py'' \<Longrightarrow>
   first_candidate fs ps target \<noteq> [] \<and> last (first_candidate fs ps target) = ''logs.py''"
  by (induction ps) (simp_all add: last_logs_under Let_def)

lemma locate_name: "locate env fs \<noteq> [] \<and> last (locate env fs) = ''logs.py''"
  using first_candidate_name [OF last_logs_under] last_logs_under
  by (simp add: locate_def primary_def Let_def)

section \<open>Facts about the paths\<close>

lemma suffix_logs: "p \<noteq> [] \<Longrightarrow> last p = ''logs.py'' \<Longrightarrow> suffix_path p = ''.py''"
  by (simp add: suffix_path_def name_path_def)

lemma with_suffix_logs:
  assumes "p \<noteq> []" "last p = ''logs.py''" "CHR ''/'' \<notin> set s" "CHR 0x5C \<notin> set s"
  shows "with_suffix p (suffix_path p @ ''.bak_'' @ s) = Inr (butlast p @ [''logs.py.bak_'' @ s])"
proof -
  have sfx: "suffix_path p = ''.py''" using assms(1,2) by (rule suffix_logs)
  have nm: "name_path p = ''logs.py''" using assms(1,2) by (simp add: name_path_def)
  show ?thesis
    unfolding with_suffix_def sfx nm using assms(3,4) by simp
qed

section \<open>The four ways a run ends\<close>

lemma backup_ok:
  "with_suffix (locate env fs) (suffix_path (locate env fs) @ ''.bak_'' @ strftime (now env)) =
     Inr (butlast (locate env fs) @ [''logs.py.bak_'' @ strftime (now env)])"
proof (rule with_suffix_logs)
  show "locate env fs \<noteq> []" using locate_name [of env fs] by simp
  show "last (locate env fs) = ''logs.py''" using locate_name [of env fs] by simp
  show "CHR ''/'' \<notin> set (strftime (now env))" by (rule strftime_no_sep)
  show "CHR 0x5C \<notin> set (strftime (now env))" by (rule strftime_no_sep)
qed

lemma run_patched:
  assumes "fs (locate env fs) = Some (Text orig)" "\<not> contains marker orig"
    "contains old_call (ensure_shutil orig)"
  shows "fix_adk_logs_patch env fs =
    print Advice (print Patched
      (write_text (locate env fs) (replace_first old_call new_block (ensure_shutil orig))
        (write_text (butlast (locate env fs) @ [''logs.py.bak_'' @ strftime (now env)])
           (ensure_shutil orig)
           (print (WritingBackup (butlast (locate env fs) @ [''logs.py.bak_'' @ strftime (now env)]))
              (print (TargetFile (locate env fs)) (start fs))))))"
  unfolding fix_adk_logs_patch_def Let_def backup_ok
  using assms by (simp add: exists_path_def)

lemma run_already:
  assumes "fs (locate env fs) = Some (Text orig)" "contains marker orig"
  shows "fix_adk_logs_patch env fs =
    sys_exit 0 (print AlreadyApplied (print (TargetFile (locate env fs)) (start fs)))"
  unfolding fix_adk_logs_patch_def Let_def
  using assms by (simp add: exists_path_def)

lemma run_no_pattern:
  assumes "fs (locate env fs) = Some (Text orig)" "\<not> contains marker orig"
    "\<not> contains old_call (ensure_shutil orig)"
  shows "fix_adk_logs_patch env fs =
    sys_exit 1 (print PatternNotFound (print (TargetFile (locate env fs)) (start fs)))"
  unfolding fix_adk_logs_patch_def Let_def
  using assms by (simp add: exists_path_def)

lemma run_missing:
  assumes "fs (locate env fs) = None"
  shows "fix_adk_logs_patch env fs =
    sys_exit 1 (print CouldNotFind (print (TargetFile (locate env fs)) (start fs)))"
  unfolding fix_adk_logs_patch_def Let_def
  using assms by (simp add: exists_path_def)

section \<open>The import line\<close>

lemma ensure_shutil_kept:
  "contains ''import shutil'' orig \<or> \<not> contains ''import os\<newline>'' orig \<Longrightarrow> ensure_shutil orig = orig"
  by (auto simp: ensure_shutil_def replace_first_absent)

lemma ensure_shutil_inserted:
  assumes "\<not> contains ''import shutil'' orig" "contains ''import os\<newline>'' orig"
  shows "\<exists>p q. orig = p @ ''import os\<newline>'' @ q \<and> \<not> contains ''import os\<newline>'' (p @ ''import os'')
    \<and> ensure_shutil orig = p @ ''import os\<newline>'' @ ''import shutil\<newline>'' @ q"
proof -
  have ne: "''import os\<newline>'' \<noteq> []" by simp
  from first_occurrence [OF ne assms(2)] obtain p q where
    c: "orig = p @ ''import os\<newline>'' @ q" and
    f: "\<not> contains ''import os\<newline>'' (p @ butlast ''import os\<newline>'')"
    by blast
  have "replace_first ''import os\<newline>'' ''import os\<newline>import shutil\<newline>'' (p @ ''import os\<newline>'' @ q)
      = p @ ''import os\<newline>import shutil\<newline>'' @ q"
    using ne f by (rule replace_first_decomp)
  then have "ensure_shutil orig = p @ ''import os\<newline>'' @ ''import shutil\<newline>'' @ q"
    using assms(1) c by (simp add: ensure_shutil_def)
  moreover have "\<not> contains ''import os\<newline>'' (p @ ''import os'')" using f by simp
  ultimately show ?thesis using c by blast
qed

lemma ensure_shutil_contains:
  assumes "CHR ''\<newline>'' \<notin> set pat" "\<not> contains pat ''import shutil''"
  shows "contains pat (ensure_shutil orig) = contains pat orig"
proof (cases "contains ''import shutil'' orig \<or> \<not> contains ''import os\<newline>'' orig")
  case True
  then show ?thesis by (simp add: ensure_shutil_kept)
next
  case False
  then obtain p q where c: "orig = p @ ''import os\<newline>'' @ q"
    and e: "ensure_shutil orig = p @ ''import os\<newline>'' @ ''import shutil\<newline>'' @ q"
    using ensure_shutil_inserted [of orig] by blast
  have "orig = (p @ ''import os'') @ CHR ''\<newline>'' # q" using c by simp
  then have 1: "sublist pat orig \<longleftrightarrow> sublist pat (p @ ''import os'') \<or> sublist pat q"
    using sublist_sep [OF assms(1)] by metis
  have "ensure_shutil orig = (p @ ''import os'') @ CHR ''\<newline>'' # (''import shutil'' @ CHR ''\<newline>'' # q)"
    using e by simp
  then have 2: "sublist pat (ensure_shutil orig) \<longleftrightarrow>
      sublist pat (p @ ''import os'') \<or> sublist pat ''import shutil'' \<or> sublist pat q"
    using sublist_sep [OF assms(1)] by metis
  from 1 2 assms(2) show ?thesis by (simp add: contains_sublist)
qed

lemma old_call_line: "CHR ''\<newline>'' \<notin> set old_call" "\<not> contains old_call ''import shutil''"
  by (simp_all add: old_call_def)

lemma marker_line: "CHR ''\<newline>'' \<notin> set marker" "\<not> contains marker ''import shutil''"
  by (simp_all add: marker_def)

lemma ensure_shutil_old_call: "contains old_call (ensure_shutil orig) = contains old_call orig"
  using old_call_line by (rule ensure_shutil_contains)

lemma ensure_shutil_marker: "contains marker (ensure_shutil orig) = contains marker orig"
  using marker_line by (rule ensure_shutil_contains)

section \<open>Runs that write nothing\<close>

lemma example_primary: "primary example_env = example_target"
  by (simp add: primary_def example_env_def example_target_def logs_under_def joinpath_def)

lemma example_locate: "locate example_env (installed text) = example_target"
  by (simp add: locate_def example_primary exists_path_def installed_def)

lemma first_candidate_none:
  "list_all (\<lambda>p. fs (logs_under p) = None) ps \<Longrightarrow> first_candidate fs ps target = target"
  by (induction ps) (simp_all add: exists_path_def)

lemma unchanged:
  "files (sys_exit n (print m (print m' (start fs)))) = fs"
  "writes (sys_exit n (print m (print m' (start fs)))) = []"
  "exit_status (sys_exit n (print m (print m' (start fs)))) = n"
  by (simp_all add: sys_exit_def print_def start_def)

text \<open>
  Claim C4. When the marker occurs in the text of the target, the run writes nothing (the
  list of writes is empty and the file system is the one it started with) and exits with
  status 0.
\<close>

theorem already_patched_no_writes:
  assumes "fs (locate env fs) = Some (Text orig)" "contains marker orig"
  shows "writes (fix_adk_logs_patch env fs) = [] \<and> files (fix_adk_logs_patch env fs) = fs
    \<and> exit_status (fix_adk_logs_patch env fs) = 0"
  using run_already [where fs = fs and env = env and orig = orig] assms by (simp add: unchanged)

theorem already_patched_no_writes_witness:
  "installed ''# fallback to copying the log file\<newline>'' (locate example_env (installed ''# fallback to copying the log file\<newline>''))
      = Some (Text ''# fallback to copying the log file\<newline>'')
   \<and> contains marker ''# fallback to copying the log file\<newline>''
   \<and> writes (fix_adk_logs_patch example_env (installed ''# fallback to copying the log file\<newline>'')) = []
   \<and> files (fix_adk_logs_patch example_env (installed ''# fallback to copying the log file\<newline>''))
       = installed ''# fallback to copying the log file\<newline>''
   \<and> exit_status (fix_adk_logs_patch example_env (installed ''# fallback to copying the log file\<newline>'')) = 0"
proof -
  have 1: "installed ''# fallback to copying the log file\<newline>'' (locate example_env (installed ''# fallback to copying the log file\<newline>''))
      = Some (Text ''# fallback to copying the log file\<newline>'')"
    by (simp add: example_locate) (simp add: installed_def)
  have 2: "contains marker ''# fallback to copying the log file\<newline>''"
    by (simp add: marker_def)
  show ?thesis using already_patched_no_writes [where fs = "installed ''# fallback to copying the log file\<newline>''"
      and env = example_env, OF 1 2] 1 2 by simp
qed

text \<open>
  Claim C5. When the text of the target holds neither the marker nor the call
  \<^verbatim>\<open>os.symlink(log_filepath, latest_log_link)\<close>, the run writes nothing, neither a
  backup nor the target, and exits with status 1. The call is looked for after the import
  line may have been inserted; the insertion never brings the call in.
\<close>

theorem pattern_missing_no_writes:
  assumes "fs (locate env fs) = Some (Text orig)" "\<not> contains marker orig"
    "\<not> contains old_call orig"
  shows "writes (fix_adk_logs_patch env fs) = [] \<and> files (fix_adk_logs_patch env fs) = fs
    \<and> exit_status (fix_adk_logs_patch env fs) = 1"
proof -
  have "\<not> contains old_call (ensure_shutil orig)"
    using assms(3) by (simp add: ensure_shutil_old_call)
  with run_no_pattern [where fs = fs and env = env and orig = orig] assms(1,2)
  show ?thesis by (simp add: unchanged)
qed

theorem pattern_missing_no_writes_witness:
  "installed ''import os\<newline>os.link(log_filepath, latest_log_link)\<newline>''
      (locate example_env (installed ''import os\<newline>os.link(log_filepath, latest_log_link)\<newline>''))
      = Some (Text ''import os\<newline>os.link(log_filepath, latest_log_link)\<newline>'')
   \<and> \<not> contains marker ''import os\<newline>os.link(log_filepath, latest_log_link)\<newline>''
   \<and> \<not> contains old_call ''import os\<newline>os.link(log_filepath, latest_log_link)\<newline>''
   \<and> writes (fix_adk_logs_patch example_env (installed ''import os\<newline>os.link(log_filepath, latest_log_link)\<newline>'')) = []
   \<and> files (fix_adk_logs_patch example_env (installed ''import os\<newline>os.link(log_filepath, latest_log_link)\<newline>''))
       = installed ''import os\<newline>os.link(log_filepath, latest_log_link)\<newline>''
   \<and> exit_status (fix_adk_logs_patch example_env (installed ''import os\<newline>os.link(log_filepath, latest_log_link)\<newline>'')) = 1"
proof -
  let ?c = "''import os\<newline>os.link(log_filepath, latest_log_link)\<newline>''"
  have 1: "installed ?c (locate example_env (installed ?c)) = Some (Text ?c)"
    by (simp add: example_locate) (simp add: installed_def)
  have 2: "\<not> contains marker ?c"
    by (simp add: marker_def)
  have 3: "\<not> contains old_call ?c"
    by (simp add: old_call_def)
  show ?thesis using pattern_missing_no_writes [where fs = "installed ?c" and env = example_env, OF 1 2 3] 1 2 3
    by simp
qed

text \<open>
  Claim C6. When neither the path under \<^verbatim>\<open>sys.prefix\<close> nor any candidate under the
  site-packages directories exists, the run writes nothing and exits with status 1.
\<close>

theorem missing_target_no_writes:
  assumes "fs (primary env) = None"
    "list_all (\<lambda>p. fs (logs_under p) = None) (getsitepackages env @ [getusersitepackages env])"
  shows "writes (fix_adk_logs_patch env fs) = [] \<and> files (fix_adk_logs_patch env fs) = fs
    \<and> exit_status (fix_adk_logs_patch env fs) = 1"
proof -
  have "locate env fs = primary env"
    using assms(1) first_candidate_none [OF assms(2)] by (simp add: locate_def exists_path_def)
  with assms(1) have "fs (locate env fs) = None" by simp
  with run_missing [where fs = fs and env = env] show ?thesis by (simp add: unchanged)
qed

theorem missing_target_no_writes_witness:
  "elsewhere (primary example_env) = None
   \<and> list_all (\<lambda>p. elsewhere (logs_under p) = None)
        (getsitepackages example_env @ [getusersitepackages example_env])
   \<and> writes (fix_adk_logs_patch example_env elsewhere) = []
   \<and> files (fix_adk_logs_patch example_env elsewhere) = elsewhere
   \<and> exit_status (fix_adk_logs_patch example_env elsewhere) = 1"
proof -
  have 1: "elsewhere (primary example_env) = None"
    by (simp add: example_primary) (simp add: elsewhere_def example_target_def)
  have 2: "list_all (\<lambda>p. elsewhere (logs_under p) = None)
        (getsitepackages example_env @ [getusersitepackages example_env])"
    by (simp add: example_env_def elsewhere_def logs_under_def joinpath_def)
  show ?thesis using missing_target_no_writes [where fs = elsewhere and env = example_env, OF 1 2] 1 2 by simp
qed

section \<open>The inserted block\<close>

lemma new_block_split:
  "new_block = ''try:'' @ CHR ''\<newline>'' # drop 5 (butlast new_block) @ [CHR ''\<newline>'']"
  by (simp add: new_block_def)

lemma new_block_has_call: "contains old_call new_block"
  by (simp add: new_block_def old_call_def)

lemma new_block_cut: "new_block = take 96 new_block @ old_call @ drop 137 new_block"
  by (simp add: new_block_def old_call_def)

lemma new_block_no_marker: "\<not> contains marker new_block"
  by (simp add: new_block_def marker_def)

lemma new_block_no_import: "\<not> contains ''import shutil'' new_block"
  by (simp add: new_block_def)

lemma length_new_block: "length new_block = 437" "length old_call = 41"
  by (simp_all add: new_block_def old_call_def)

lemma sublist_chain: "sublist a b \<Longrightarrow> sublist b c \<Longrightarrow> sublist a c"
  unfolding sublist_def by (metis append.assoc)

lemma new_block_fresh:
  assumes "CHR ''\<newline>'' \<notin> set pat" "pat \<noteq> []" "last pat \<notin> set ''try:''"
    "\<not> contains pat new_block" "contains pat (pre @ new_block @ post)"
  shows "contains pat pre \<or> contains pat post"
proof -
  let ?mid = "drop 5 (butlast new_block)"
  have "pre @ new_block @ post = (pre @ ''try:'') @ CHR ''\<newline>'' # (?mid @ CHR ''\<newline>'' # post)"
    by (subst new_block_split) simp
  with assms(5) have "sublist pat ((pre @ ''try:'') @ CHR ''\<newline>'' # (?mid @ CHR ''\<newline>'' # post))"
    by (simp add: contains_sublist)
  then consider "sublist pat (pre @ ''try:'')" | "sublist pat ?mid" | "sublist pat post"
    using sublist_sep [OF assms(1)] by metis
  then show ?thesis
  proof cases
    case 1
    have "sublist pat pre" using assms(2,3) 1 by (rule sublist_last_out)
    then show ?thesis by (simp add: contains_sublist)
  next
    case 2
    have "sublist ?mid new_block"
      by (rule sublist_chain [OF sublist_drop sublist_butlast])
    with 2 have "sublist pat new_block" by (rule sublist_chain)
    with assms(4) show ?thesis by (simp add: contains_sublist)
  next
    case 3
    then show ?thesis by (simp add: contains_sublist)
  qed
qed

lemma contains_parts:
  "contains pat pre \<Longrightarrow> contains pat (pre @ mid @ post)"
  "contains pat mid \<Longrightarrow> contains pat (pre @ mid @ post)"
  "contains pat post \<Longrightarrow> contains pat (pre @ mid @ post)"
  by (auto simp: contains_sublist sublist_append)

lemma patched_fresh:
  assumes "CHR ''\<newline>'' \<notin> set pat" "pat \<noteq> []" "last pat \<notin> set ''try:''"
    "\<not> contains pat new_block" "\<not> contains pat (pre @ old_call @ post)"
  shows "\<not> contains pat (pre @ new_block @ post)"
proof
  assume "contains pat (pre @ new_block @ post)"
  with assms(1-4) have "contains pat pre \<or> contains pat post" by (rule new_block_fresh)
  then have "contains pat (pre @ old_call @ post)"
    using contains_parts(1,3) by blast
  with assms(5) show False by simp
qed

lemma old_call_nonempty: "old_call \<noteq> []"
  by (simp add: old_call_def)

text \<open>What the second \<^verbatim>\<open>replace\<close> does to a text that holds the call.\<close>

lemma replace_old_call:
  assumes "contains old_call s"
  shows "\<exists>pre post. s = pre @ old_call @ post \<and> \<not> contains old_call (pre @ butlast old_call)
    \<and> replace_first old_call new_block s = pre @ new_block @ post"
proof -
  from first_occurrence [OF old_call_nonempty assms] obtain pre post where
    s: "s = pre @ old_call @ post" and f: "\<not> contains old_call (pre @ butlast old_call)"
    by blast
  have "replace_first old_call new_block (pre @ old_call @ post) = pre @ new_block @ post"
    using old_call_nonempty f by (rule replace_first_decomp)
  with s f show ?thesis by blast
qed

lemma patched_facts:
  "files (print m (print m' (write_text t new (write_text b old (print m'' (print m''' (start fs))))))) t
     = Some (Text new)"
  "writes (print m (print m' (write_text t new (write_text b old (print m'' (print m''' (start fs)))))))
     = [(b, old), (t, new)]"
  "exit_status (print m (print m' (write_text t new (write_text b old (print m'' (print m''' (start fs)))))))
     = 0"
  "files (print m (print m' (write_text t new (write_text b old (print m'' (print m''' (start fs)))))))
     = fs(b \<mapsto> Text old, t \<mapsto> Text new)"
  by (simp_all add: print_def write_text_def start_def)

section \<open>Runs that patch\<close>

lemma example_installed: "installed text (locate example_env (installed text)) = Some (Text text)"
  by (simp add: example_locate) (simp add: installed_def)

lemma excerpt_facts:
  "\<not> contains marker logs_excerpt" "contains old_call logs_excerpt"
  "\<not> contains ''import shutil'' logs_excerpt" "contains ''import os\<newline>'' logs_excerpt"
  by (simp_all add: logs_excerpt_def marker_def old_call_def)

lemma excerpt_joint_facts:
  "\<not> contains marker logs_excerpt_joint" "contains old_call logs_excerpt_joint"
  "\<not> contains ''import shutil'' logs_excerpt_joint"
  "\<not> contains ''import os\<newline>'' logs_excerpt_joint"
  by (simp_all add: logs_excerpt_joint_def marker_def old_call_def)

lemma marker_fresh: "marker \<noteq> []" "last marker \<notin> set ''try:''"
  by (simp_all add: marker_def)

lemma import_fresh: "CHR ''\<newline>'' \<notin> set ''import shutil''" "''import shutil'' \<noteq> []"
  "last ''import shutil'' \<notin> set ''try:''"
  by simp_all

text \<open>The text a patching run leaves in the target, cut at the first call.\<close>

lemma run_patched_text:
  assumes "fs (locate env fs) = Some (Text orig)" "\<not> contains marker orig"
    "contains old_call orig"
  shows "\<exists>pre post. ensure_shutil orig = pre @ old_call @ post
    \<and> \<not> contains old_call (pre @ butlast old_call)
    \<and> files (fix_adk_logs_patch env fs) (locate env fs) = Some (Text (pre @ new_block @ post))
    \<and> writes (fix_adk_logs_patch env fs) =
        [(butlast (locate env fs) @ [''logs.py.bak_'' @ strftime (now env)], ensure_shutil orig),
         (locate env fs, pre @ new_block @ post)]
    \<and> exit_status (fix_adk_logs_patch env fs) = 0"
proof -
  have c: "contains old_call (ensure_shutil orig)"
    using assms(3) by (simp add: ensure_shutil_old_call)
  from replace_old_call [OF c] obtain pre post where
    e: "ensure_shutil orig = pre @ old_call @ post"
    and f: "\<not> contains old_call (pre @ butlast old_call)"
    and r: "replace_first old_call new_block (ensure_shutil orig) = pre @ new_block @ post"
    by blast
  have run: "fix_adk_logs_patch env fs =
    print Advice (print Patched
      (write_text (locate env fs) (pre @ new_block @ post)
        (write_text (butlast (locate env fs) @ [''logs.py.bak_'' @ strftime (now env)])
           (ensure_shutil orig)
           (print (WritingBackup (butlast (locate env fs) @ [''logs.py.bak_'' @ strftime (now env)]))
              (print (TargetFile (locate env fs)) (start fs))))))"
    using run_patched [where fs = fs and env = env and orig = orig] assms(1,2) c
    unfolding r by blast
  have t: "files (fix_adk_logs_patch env fs) (locate env fs) = Some (Text (pre @ new_block @ post))"
    unfolding run by (rule patched_facts(1))
  have w: "writes (fix_adk_logs_patch env fs) =
        [(butlast (locate env fs) @ [''logs.py.bak_'' @ strftime (now env)], ensure_shutil orig),
         (locate env fs, pre @ new_block @ post)]"
    unfolding run by (rule patched_facts(2))
  have x: "exit_status (fix_adk_logs_patch env fs) = 0"
    unfolding run by (rule patched_facts(3))
  show ?thesis
    using e f t w x by (intro exI conjI)
qed

text \<open>
  Claim C9. Whenever a patch is applied (the target holds text without the marker and with
  the call), the text written to the target is the text after the import step with the
  block standing where its first call was. The block itself carries the call
  \<^verbatim>\<open>os.symlink(log_filepath, latest_log_link)\<close>, 96 characters in, so the written text
  still holds the call, inside the inserted block; and the written text does not hold the
  marker \<^verbatim>\<open>fallback to copying the log file\<close>.
\<close>

theorem patched_text_shape:
  assumes "fs (locate env fs) = Some (Text orig)" "\<not> contains marker orig"
    "contains old_call orig"
  shows "\<exists>pre post.
      ensure_shutil orig = pre @ old_call @ post
    \<and> \<not> contains old_call (pre @ butlast old_call)
    \<and> files (fix_adk_logs_patch env fs) (locate env fs) = Some (Text (pre @ new_block @ post))
    \<and> last (writes (fix_adk_logs_patch env fs)) = (locate env fs, pre @ new_block @ post)
    \<and> contains old_call new_block
    \<and> pre @ new_block @ post
        = (pre @ take 96 new_block) @ old_call @ (drop 137 new_block @ post)
    \<and> contains old_call (pre @ new_block @ post)
    \<and> \<not> contains marker (pre @ new_block @ post)"
proof -
  from run_patched_text [where fs = fs and env = env and orig = orig, OF assms] obtain pre post where
    e: "ensure_shutil orig = pre @ old_call @ post"
    and f: "\<not> contains old_call (pre @ butlast old_call)"
    and t: "files (fix_adk_logs_patch env fs) (locate env fs) = Some (Text (pre @ new_block @ post))"
    and w: "writes (fix_adk_logs_patch env fs) =
        [(butlast (locate env fs) @ [''logs.py.bak_'' @ strftime (now env)], ensure_shutil orig),
         (locate env fs, pre @ new_block @ post)]"
    by blast
  have l: "last (writes (fix_adk_logs_patch env fs)) = (locate env fs, pre @ new_block @ post)"
    unfolding w by simp
  have p: "pre @ new_block @ post
      = (pre @ take 96 new_block) @ old_call @ (drop 137 new_block @ post)"
    by (subst new_block_cut) simp
  have c: "contains old_call (pre @ new_block @ post)"
    using new_block_has_call by (rule contains_parts(2))
  have "\<not> contains marker (pre @ old_call @ post)"
    using assms(2) ensure_shutil_marker [of orig] e by simp
  with marker_line(1) marker_fresh new_block_no_marker
  have m: "\<not> contains marker (pre @ new_block @ post)" by (rule patched_fresh)
  show ?thesis
    using e f t l new_block_has_call p c m by (intro exI conjI)
qed

theorem patched_text_shape_witness:
  "installed logs_excerpt (locate example_env (installed logs_excerpt)) = Some (Text logs_excerpt)
   \<and> \<not> contains marker logs_excerpt \<and> contains old_call logs_excerpt
   \<and> (\<exists>pre post.
      ensure_shutil logs_excerpt = pre @ old_call @ post
    \<and> \<not> contains old_call (pre @ butlast old_call)
    \<and> files (fix_adk_logs_patch example_env (installed logs_excerpt))
         (locate example_env (installed logs_excerpt)) = Some (Text (pre @ new_block @ post))
    \<and> last (writes (fix_adk_logs_patch example_env (installed logs_excerpt)))
         = (locate example_env (installed logs_excerpt), pre @ new_block @ post)
    \<and> contains old_call new_block
    \<and> pre @ new_block @ post
        = (pre @ take 96 new_block) @ old_call @ (drop 137 new_block @ post)
    \<and> contains old_call (pre @ new_block @ post)
    \<and> \<not> contains marker (pre @ new_block @ post))"
  using patched_text_shape [where fs = "installed logs_excerpt" and env = example_env,
      OF example_installed excerpt_facts(1,2)]
    example_installed [of logs_excerpt] excerpt_facts(1,2)
  by (intro conjI)

text \<open>
  Claim C8. When the text holds neither \<^verbatim>\<open>import shutil\<close> nor \<^verbatim>\<open>import os\<close> followed by
  a newline, the import step leaves the text as it is, the run goes on to patch: it
  backs the text up, writes the text with the first call replaced by the block and exits
  with 0, and \<^verbatim>\<open>import shutil\<close> occurs nowhere in what it writes.
\<close>

theorem anchor_missing_no_import:
  assumes "fs (locate env fs) = Some (Text orig)" "\<not> contains marker orig"
    "contains old_call orig" "\<not> contains ''import shutil'' orig"
    "\<not> contains ''import os\<newline>'' orig"
  shows "ensure_shutil orig = orig
    \<and> (\<exists>pre post. orig = pre @ old_call @ post
          \<and> \<not> contains old_call (pre @ butlast old_call)
          \<and> writes (fix_adk_logs_patch env fs) =
              [(butlast (locate env fs) @ [''logs.py.bak_'' @ strftime (now env)], orig),
               (locate env fs, pre @ new_block @ post)]
          \<and> files (fix_adk_logs_patch env fs) (locate env fs) = Some (Text (pre @ new_block @ post))
          \<and> \<not> contains ''import shutil'' (pre @ new_block @ post))
    \<and> exit_status (fix_adk_logs_patch env fs) = 0"
proof -
  have k: "ensure_shutil orig = orig"
    using assms(5) by (simp add: ensure_shutil_kept)
  from run_patched_text [where fs = fs and env = env and orig = orig, OF assms(1-3)]
  obtain pre post where
    e: "orig = pre @ old_call @ post"
    and f: "\<not> contains old_call (pre @ butlast old_call)"
    and t: "files (fix_adk_logs_patch env fs) (locate env fs) = Some (Text (pre @ new_block @ post))"
    and w: "writes (fix_adk_logs_patch env fs) =
        [(butlast (locate env fs) @ [''logs.py.bak_'' @ strftime (now env)], orig),
         (locate env fs, pre @ new_block @ post)]"
    and x: "exit_status (fix_adk_logs_patch env fs) = 0"
    unfolding k by blast
  have "\<not> contains ''import shutil'' (pre @ old_call @ post)"
    using assms(4) e by simp
  with import_fresh new_block_no_import
  have n: "\<not> contains ''import shutil'' (pre @ new_block @ post)" by (rule patched_fresh)
  have "\<exists>pre post. orig = pre @ old_call @ post
          \<and> \<not> contains old_call (pre @ butlast old_call)
          \<and> writes (fix_adk_logs_patch env fs) =
              [(butlast (locate env fs) @ [''logs.py.bak_'' @ strftime (now env)], orig),
               (locate env fs, pre @ new_block @ post)]
          \<and> files (fix_adk_logs_patch env fs) (locate env fs) = Some (Text (pre @ new_block @ post))
          \<and> \<not> contains ''import shutil'' (pre @ new_block @ post)"
    using e f w t n by (intro exI conjI)
  with k x show ?thesis by (intro conjI)
qed

theorem anchor_missing_no_import_witness:
  "installed logs_excerpt_joint (locate example_env (installed logs_excerpt_joint))
      = Some (Text logs_excerpt_joint)
   \<and> \<not> contains marker logs_excerpt_joint \<and> contains old_call logs_excerpt_joint
   \<and> \<not> contains ''import shutil'' logs_excerpt_joint
   \<and> \<not> contains ''import os\<newline>'' logs_excerpt_joint
   \<and> ensure_shutil logs_excerpt_joint = logs_excerpt_joint
   \<and> (\<exists>pre post. logs_excerpt_joint = pre @ old_call @ post
          \<and> \<not> contains old_call (pre @ butlast old_call)
          \<and> writes (fix_adk_logs_patch example_env (installed logs_excerpt_joint)) =
              [(butlast (locate example_env (installed logs_excerpt_joint))
                  @ [''logs.py.bak_'' @ strftime (now example_env)], logs_excerpt_joint),
               (locate example_env (installed logs_excerpt_joint), pre @ new_block @ post)]
          \<and> files (fix_adk_logs_patch example_env (installed logs_excerpt_joint))
               (locate example_env (installed logs_excerpt_joint))
              = Some (Text (pre @ new_block @ post))
          \<and> \<not> contains ''import shutil'' (pre @ new_block @ post))
   \<and> exit_status (fix_adk_logs_patch example_env (installed logs_excerpt_joint)) = 0"
  using anchor_missing_no_import [where fs = "installed logs_excerpt_joint" and env = example_env,
      OF example_installed excerpt_joint_facts]
    example_installed [of logs_excerpt_joint] excerpt_joint_facts
  by (intro conjI) blast+

lemma ensure_shutil_step:
  "if contains ''import shutil'' orig \<or> \<not> contains ''import os\<newline>'' orig
   then ensure_shutil orig = orig
   else \<exists>p q. orig = p @ ''import os\<newline>'' @ q
          \<and> \<not> contains ''import os\<newline>'' (p @ ''import os'')
          \<and> ensure_shutil orig = p @ ''import os\<newline>'' @ ''import shutil\<newline>'' @ q"
  using ensure_shutil_kept [of orig] ensure_shutil_inserted [of orig]
  by (cases "contains ''import shutil'' orig \<or> \<not> contains ''import os\<newline>'' orig") simp_all

lemma joint_patched:
  "replace_first old_call new_block (ensure_shutil logs_excerpt_joint)
     = ''import os, sys\<newline>    '' @ new_block @ ''\<newline>''"
proof -
  have k: "ensure_shutil logs_excerpt_joint = logs_excerpt_joint"
    using excerpt_joint_facts(4) by (simp add: ensure_shutil_kept)
  have s: "logs_excerpt_joint = ''import os, sys\<newline>    '' @ old_call @ ''\<newline>''"
    by (simp add: logs_excerpt_joint_def old_call_def)
  have f: "\<not> contains old_call (''import os, sys\<newline>    '' @ butlast old_call)"
    by (simp add: old_call_def)
  have "replace_first old_call new_block logs_excerpt_joint
      = ''import os, sys\<newline>    '' @ new_block @ ''\<newline>''"
    unfolding s using old_call_nonempty f by (rule replace_first_decomp)
  then show ?thesis by (simp only: k)
qed

lemma joint_patched_no_import:
  "\<not> contains ''import shutil'' (''import os, sys\<newline>    '' @ new_block @ ''\<newline>'')"
proof (rule patched_fresh [OF import_fresh new_block_no_import])
  show "\<not> contains ''import shutil'' (''import os, sys\<newline>    '' @ old_call @ ''\<newline>'')"
    by (simp add: old_call_def)
qed

text \<open>
  Claim C3, as stated, at a text that imports \<^verbatim>\<open>os\<close> together with \<^verbatim>\<open>sys\<close>: the marker
  is absent, the call is present and \<^verbatim>\<open>import shutil\<close> is absent, the run patches and
  exits with 0, and the text it writes to the target still has no \<^verbatim>\<open>import shutil\<close>.
\<close>

theorem import_not_inserted_example:
  "\<not> contains marker logs_excerpt_joint \<and> contains old_call logs_excerpt_joint
   \<and> \<not> contains ''import shutil'' logs_excerpt_joint
   \<and> exit_status (fix_adk_logs_patch example_env (installed logs_excerpt_joint)) = 0
   \<and> files (fix_adk_logs_patch example_env (installed logs_excerpt_joint)) example_target
       = Some (Text (''import os, sys\<newline>    '' @ new_block @ ''\<newline>''))
   \<and> \<not> contains ''import shutil'' (''import os, sys\<newline>    '' @ new_block @ ''\<newline>'')"
proof -
  have c: "contains old_call (ensure_shutil logs_excerpt_joint)"
    using excerpt_joint_facts(2) by (simp add: ensure_shutil_old_call)
  note run = run_patched [where fs = "installed logs_excerpt_joint" and env = example_env,
      OF example_installed excerpt_joint_facts(1) c, unfolded joint_patched example_locate]
  have "exit_status (fix_adk_logs_patch example_env (installed logs_excerpt_joint)) = 0"
    unfolding run by (rule patched_facts(3))
  moreover have "files (fix_adk_logs_patch example_env (installed logs_excerpt_joint)) example_target
       = Some (Text (''import os, sys\<newline>    '' @ new_block @ ''\<newline>''))"
    unfolding run by (rule patched_facts(1))
  ultimately show ?thesis
    using excerpt_joint_facts(1,2,3) joint_patched_no_import by (intro conjI)
qed

text \<open>
  Claim C3, amended. Whenever the text of the target lacks the marker and holds the call,
  the run exits with 0 and the last thing it writes is the target, with this text: first,
  if \<^verbatim>\<open>import shutil\<close> is absent and \<^verbatim>\<open>import os\<close> followed by a newline occurs, the line
  \<^verbatim>\<open>import shutil\<close> is put directly after the first such occurrence (and nothing is
  inserted when there is none, or when \<^verbatim>\<open>import shutil\<close> is there already); then the first
  occurrence of the call is replaced by the block.
\<close>

theorem patch_postcondition:
  assumes "fs (locate env fs) = Some (Text orig)" "\<not> contains marker orig"
    "contains old_call orig"
  shows "\<exists>mid pre post.
      (if contains ''import shutil'' orig \<or> \<not> contains ''import os\<newline>'' orig
       then mid = orig
       else \<exists>p q. orig = p @ ''import os\<newline>'' @ q
              \<and> \<not> contains ''import os\<newline>'' (p @ ''import os'')
              \<and> mid = p @ ''import os\<newline>'' @ ''import shutil\<newline>'' @ q)
    \<and> mid = pre @ old_call @ post
    \<and> \<not> contains old_call (pre @ butlast old_call)
    \<and> files (fix_adk_logs_patch env fs) (locate env fs) = Some (Text (pre @ new_block @ post))
    \<and> last (writes (fix_adk_logs_patch env fs)) = (locate env fs, pre @ new_block @ post)
    \<and> exit_status (fix_adk_logs_patch env fs) = 0"
proof -
  from run_patched_text [where fs = fs and env = env and orig = orig, OF assms]
  obtain pre post where
    e: "ensure_shutil orig = pre @ old_call @ post"
    and f: "\<not> contains old_call (pre @ butlast old_call)"
    and t: "files (fix_adk_logs_patch env fs) (locate env fs) = Some (Text (pre @ new_block @ post))"
    and w: "writes (fix_adk_logs_patch env fs) =
        [(butlast (locate env fs) @ [''logs.py.bak_'' @ strftime (now env)], ensure_shutil orig),
         (locate env fs, pre @ new_block @ post)]"
    and x: "exit_status (fix_adk_logs_patch env fs) = 0"
    by blast
  have l: "last (writes (fix_adk_logs_patch env fs)) = (locate env fs, pre @ new_block @ post)"
    unfolding w by simp
  show ?thesis
    using ensure_shutil_step [of orig] e f t l x
    by (intro exI [of _ "ensure_shutil orig"] exI [of _ pre] exI [of _ post] conjI)
qed

theorem patch_postcondition_witness:
  "installed logs_excerpt (locate example_env (installed logs_excerpt)) = Some (Text logs_excerpt)
   \<and> \<not> contains marker logs_excerpt \<and> contains old_call logs_excerpt
   \<and> \<not> contains ''import shutil'' logs_excerpt \<and> contains ''import os\<newline>'' logs_excerpt
   \<and> (\<exists>mid pre post.
        (\<exists>p q. logs_excerpt = p @ ''import os\<newline>'' @ q
              \<and> \<not> contains ''import os\<newline>'' (p @ ''import os'')
              \<and> mid = p @ ''import os\<newline>'' @ ''import shutil\<newline>'' @ q)
      \<and> mid = pre @ old_call @ post
      \<and> \<not> contains old_call (pre @ butlast old_call)
      \<and> files (fix_adk_logs_patch example_env (installed logs_excerpt))
           (locate example_env (installed logs_excerpt)) = Some (Text (pre @ new_block @ post))
      \<and> last (writes (fix_adk_logs_patch example_env (installed logs_excerpt)))
           = (locate example_env (installed logs_excerpt), pre @ new_block @ post)
      \<and> exit_status (fix_adk_logs_patch example_env (installed logs_excerpt)) = 0)"
proof -
  have i: "\<not> (contains ''import shutil'' logs_excerpt \<or> \<not> contains ''import os\<newline>'' logs_excerpt)"
    using excerpt_facts(3,4) by simp
  show ?thesis
    using patch_postcondition [where fs = "installed logs_excerpt" and env = example_env,
        OF example_installed excerpt_facts(1,2), unfolded if_not_P [OF i]]
      example_installed [of logs_excerpt] excerpt_facts
    by (intro conjI)
qed

lemma old_call_last: "last old_call \<notin> set ''import os''"
  by (simp add: old_call_def)

lemma sep_split:
  "CHR ''\<newline>'' \<notin> set pat \<Longrightarrow>
   contains pat (a @ ''import os\<newline>'' @ b) \<longleftrightarrow> contains pat (a @ ''import os'') \<or> contains pat b"
  using sublist_sep [of "CHR ''\<newline>''" pat "a @ ''import os''" b]
  by (simp add: contains_sublist)

lemma sep_split2:
  "CHR ''\<newline>'' \<notin> set pat \<Longrightarrow>
   contains pat (a @ ''import os\<newline>'' @ ''import shutil\<newline>'' @ b) \<longleftrightarrow>
     contains pat (a @ ''import os'') \<or> contains pat ''import shutil'' \<or> contains pat b"
  using sublist_sep [of "CHR ''\<newline>''" pat "a @ ''import os''" "''import shutil'' @ CHR ''\<newline>'' # b"]
    sublist_sep [of "CHR ''\<newline>''" pat "''import shutil''" b]
  by (simp add: contains_sublist)

text \<open>The two replacements together, on a text where the import line is inserted.\<close>

lemma both_replacements:
  assumes "\<not> contains ''import shutil'' orig" "contains ''import os\<newline>'' orig"
    "contains old_call orig"
  shows "(\<exists>a b c. orig = a @ ''import os\<newline>'' @ b @ old_call @ c
            \<and> \<not> contains ''import os\<newline>'' (a @ ''import os'')
            \<and> \<not> contains old_call (a @ ''import os\<newline>'' @ b @ butlast old_call)
            \<and> replace_first old_call new_block (ensure_shutil orig)
                = a @ ''import os\<newline>'' @ ''import shutil\<newline>'' @ b @ new_block @ c)
       \<or> (\<exists>a b c. orig = a @ old_call @ b @ ''import os\<newline>'' @ c
            \<and> \<not> contains old_call (a @ butlast old_call)
            \<and> \<not> contains ''import os\<newline>'' (a @ old_call @ b @ ''import os'')
            \<and> replace_first old_call new_block (ensure_shutil orig)
                = a @ new_block @ b @ ''import os\<newline>'' @ ''import shutil\<newline>'' @ c)"
proof -
  from ensure_shutil_inserted [OF assms(1,2)] obtain p q where
    o: "orig = p @ ''import os\<newline>'' @ q"
    and fi: "\<not> contains ''import os\<newline>'' (p @ ''import os'')"
    and e: "ensure_shutil orig = p @ ''import os\<newline>'' @ ''import shutil\<newline>'' @ q"
    by blast
  show ?thesis
  proof (cases "contains old_call (p @ ''import os'')")
    case True
    then have "sublist old_call (p @ ''import os'')" by (simp add: contains_sublist)
    with old_call_nonempty old_call_last have "sublist old_call p" by (rule sublist_last_out)
    then have "contains old_call p" by (simp add: contains_sublist)
    from first_occurrence [OF old_call_nonempty this] obtain a b where
      p: "p = a @ old_call @ b" and fo: "\<not> contains old_call (a @ butlast old_call)"
      by blast
    have "replace_first old_call new_block
            (a @ old_call @ (b @ ''import os\<newline>'' @ ''import shutil\<newline>'' @ q))
          = a @ new_block @ (b @ ''import os\<newline>'' @ ''import shutil\<newline>'' @ q)"
      using old_call_nonempty fo by (rule replace_first_decomp)
    then have r: "replace_first old_call new_block (ensure_shutil orig)
        = a @ new_block @ b @ ''import os\<newline>'' @ ''import shutil\<newline>'' @ q"
      unfolding e p by simp
    have o': "orig = a @ old_call @ b @ ''import os\<newline>'' @ q"
      unfolding o p by simp
    have fi': "\<not> contains ''import os\<newline>'' (a @ old_call @ b @ ''import os'')"
      using fi unfolding p by simp
    have "\<exists>a b c. orig = a @ old_call @ b @ ''import os\<newline>'' @ c
            \<and> \<not> contains old_call (a @ butlast old_call)
            \<and> \<not> contains ''import os\<newline>'' (a @ old_call @ b @ ''import os'')
            \<and> replace_first old_call new_block (ensure_shutil orig)
                = a @ new_block @ b @ ''import os\<newline>'' @ ''import shutil\<newline>'' @ c"
      using o' fo fi' r by (intro exI conjI)
    then show ?thesis by (rule disjI2)
  next
    case False
    have "contains old_call (p @ ''import os\<newline>'' @ q)" using assms(3) o by simp
    with False have "contains old_call q"
      using sep_split [OF old_call_line(1), of p q] by simp
    from first_occurrence [OF old_call_nonempty this] obtain b c where
      q: "q = b @ old_call @ c" and fq: "\<not> contains old_call (b @ butlast old_call)"
      by blast
    have n2: "\<not> contains old_call (p @ ''import os\<newline>'' @ ''import shutil\<newline>'' @ (b @ butlast old_call))"
      using False old_call_line(2) fq sep_split2 [OF old_call_line(1), of p "b @ butlast old_call"]
      by simp
    have n1: "\<not> contains old_call (p @ ''import os\<newline>'' @ (b @ butlast old_call))"
      using False fq sep_split [OF old_call_line(1), of p "b @ butlast old_call"] by simp
    have "replace_first old_call new_block
            ((p @ ''import os\<newline>'' @ ''import shutil\<newline>'' @ b) @ old_call @ c)
          = (p @ ''import os\<newline>'' @ ''import shutil\<newline>'' @ b) @ new_block @ c"
      using old_call_nonempty
    proof (rule replace_first_decomp)
      show "\<not> contains old_call ((p @ ''import os\<newline>'' @ ''import shutil\<newline>'' @ b) @ butlast old_call)"
        using n2 by simp
    qed
    then have r: "replace_first old_call new_block (ensure_shutil orig)
        = p @ ''import os\<newline>'' @ ''import shutil\<newline>'' @ b @ new_block @ c"
      unfolding e q by simp
    have o': "orig = p @ ''import os\<newline>'' @ b @ old_call @ c"
      unfolding o q by simp
    have n1': "\<not> contains old_call (p @ ''import os\<newline>'' @ b @ butlast old_call)"
      using n1 by simp
    have "\<exists>a b c. orig = a @ ''import os\<newline>'' @ b @ old_call @ c
            \<and> \<not> contains ''import os\<newline>'' (a @ ''import os'')
            \<and> \<not> contains old_call (a @ ''import os\<newline>'' @ b @ butlast old_call)
            \<and> replace_first old_call new_block (ensure_shutil orig)
                = a @ ''import os\<newline>'' @ ''import shutil\<newline>'' @ b @ new_block @ c"
      using o' fi n1' r by (intro exI conjI)
    then show ?thesis by (rule disjI1)
  qed
qed

lemma run_patched_target:
  assumes "fs (locate env fs) = Some (Text orig)" "\<not> contains marker orig"
    "contains old_call orig"
  shows "files (fix_adk_logs_patch env fs) (locate env fs)
    = Some (Text (replace_first old_call new_block (ensure_shutil orig)))"
proof -
  have c: "contains old_call (ensure_shutil orig)"
    using assms(3) by (simp add: ensure_shutil_old_call)
  show ?thesis
    unfolding run_patched [where fs = fs and env = env and orig = orig, OF assms(1,2) c]
    by (rule patched_facts(1))
qed

text \<open>
  Claim C10. Whenever a patch is applied, the text written to the target is the text read,
  changed in at most two places and nowhere else: the first occurrence of the call is
  replaced by the block, and, when \<^verbatim>\<open>import shutil\<close> was absent and \<^verbatim>\<open>import os\<close> followed
  by a newline occurs, one line \<^verbatim>\<open>import shutil\<close> stands directly after the first such
  occurrence. The three cases are: no line inserted; the line inserted before the call;
  the line inserted after the call.
\<close>

theorem patch_frame:
  assumes "fs (locate env fs) = Some (Text orig)" "\<not> contains marker orig"
    "contains old_call orig"
  shows "\<exists>new. files (fix_adk_logs_patch env fs) (locate env fs) = Some (Text new)
    \<and> ((\<exists>pre post. (contains ''import shutil'' orig \<or> \<not> contains ''import os\<newline>'' orig)
            \<and> orig = pre @ old_call @ post
            \<and> \<not> contains old_call (pre @ butlast old_call)
            \<and> new = pre @ new_block @ post)
       \<or> (\<exists>a b c. \<not> contains ''import shutil'' orig
            \<and> orig = a @ ''import os\<newline>'' @ b @ old_call @ c
            \<and> \<not> contains ''import os\<newline>'' (a @ ''import os'')
            \<and> \<not> contains old_call (a @ ''import os\<newline>'' @ b @ butlast old_call)
            \<and> new = a @ ''import os\<newline>'' @ ''import shutil\<newline>'' @ b @ new_block @ c)
       \<or> (\<exists>a b c. \<not> contains ''import shutil'' orig
            \<and> orig = a @ old_call @ b @ ''import os\<newline>'' @ c
            \<and> \<not> contains old_call (a @ butlast old_call)
            \<and> \<not> contains ''import os\<newline>'' (a @ old_call @ b @ ''import os'')
            \<and> new = a @ new_block @ b @ ''import os\<newline>'' @ ''import shutil\<newline>'' @ c))"
proof -
  let ?new = "replace_first old_call new_block (ensure_shutil orig)"
  note t = run_patched_target [where fs = fs and env = env and orig = orig, OF assms]
  show ?thesis
  proof (cases "contains ''import shutil'' orig \<or> \<not> contains ''import os\<newline>'' orig")
    case True
    then have k: "ensure_shutil orig = orig" by (rule ensure_shutil_kept)
    from replace_old_call [OF assms(3)] obtain pre post where
      "orig = pre @ old_call @ post" "\<not> contains old_call (pre @ butlast old_call)"
      "replace_first old_call new_block orig = pre @ new_block @ post"
      by blast
    with True k have "\<exists>pre post. (contains ''import shutil'' orig \<or> \<not> contains ''import os\<newline>'' orig)
            \<and> orig = pre @ old_call @ post
            \<and> \<not> contains old_call (pre @ butlast old_call)
            \<and> ?new = pre @ new_block @ post"
      by auto
    with t show ?thesis by blast
  next
    case False
    then have a: "\<not> contains ''import shutil'' orig" and i: "contains ''import os\<newline>'' orig"
      by simp_all
    from both_replacements [OF a i assms(3)] a
    have "(\<exists>a b c. \<not> contains ''import shutil'' orig
            \<and> orig = a @ ''import os\<newline>'' @ b @ old_call @ c
            \<and> \<not> contains ''import os\<newline>'' (a @ ''import os'')
            \<and> \<not> contains old_call (a @ ''import os\<newline>'' @ b @ butlast old_call)
            \<and> ?new = a @ ''import os\<newline>'' @ ''import shutil\<newline>'' @ b @ new_block @ c)
       \<or> (\<exists>a b c. \<not> contains ''import shutil'' orig
            \<and> orig = a @ old_call @ b @ ''import os\<newline>'' @ c
            \<and> \<not> contains old_call (a @ butlast old_call)
            \<and> \<not> contains ''import os\<newline>'' (a @ old_call @ b @ ''import os'')
            \<and> ?new = a @ new_block @ b @ ''import os\<newline>'' @ ''import shutil\<newline>'' @ c)"
      by blast
    with t show ?thesis by blast
  qed
qed

theorem patch_frame_witness:
  "installed logs_excerpt (locate example_env (installed logs_excerpt)) = Some (Text logs_excerpt)
   \<and> \<not> contains marker logs_excerpt \<and> contains old_call logs_excerpt
   \<and> (\<exists>new. files (fix_adk_logs_patch example_env (installed logs_excerpt))
               (locate example_env (installed logs_excerpt)) = Some (Text new)
    \<and> ((\<exists>pre post. (contains ''import shutil'' logs_excerpt \<or> \<not> contains ''import os\<newline>'' logs_excerpt)
            \<and> logs_excerpt = pre @ old_call @ post
            \<and> \<not> contains old_call (pre @ butlast old_call)
            \<and> new = pre @ new_block @ post)
       \<or> (\<exists>a b c. \<not> contains ''import shutil'' logs_excerpt
            \<and> logs_excerpt = a @ ''import os\<newline>'' @ b @ old_call @ c
            \<and> \<not> contains ''import os\<newline>'' (a @ ''import os'')
            \<and> \<not> contains old_call (a @ ''import os\<newline>'' @ b @ butlast old_call)
            \<and> new = a @ ''import os\<newline>'' @ ''import shutil\<newline>'' @ b @ new_block @ c)
       \<or> (\<exists>a b c. \<not> contains ''import shutil'' logs_excerpt
            \<and> logs_excerpt = a @ old_call @ b @ ''import os\<newline>'' @ c
            \<and> \<not> contains old_call (a @ butlast old_call)
            \<and> \<not> contains ''import os\<newline>'' (a @ old_call @ b @ ''import os'')
            \<and> new = a @ new_block @ b @ ''import os\<newline>'' @ ''import shutil\<newline>'' @ c)))"
  using patch_frame [where fs = "installed logs_excerpt" and env = example_env,
      OF example_installed excerpt_facts(1,2)]
    example_installed [of logs_excerpt] excerpt_facts(1,2)
  by (intro conjI)

section \<open>The backup file\<close>





lemma example_stamp: "strftime (now example_env) = ''20260307_093005''"
  by (simp add: strftime_def example_env_def zfill_def decimal.simps digit_def)



section \<open>Two runs on the excerpt\<close>

lemma excerpt_ensured:
  "ensure_shutil logs_excerpt =
     ''import os\<newline>import shutil\<newline>    os.symlink(log_filepath, latest_log_link)\<newline>''"
  by (simp add: ensure_shutil_def logs_excerpt_def)

lemma excerpt_patched:
  "replace_first old_call new_block (ensure_shutil logs_excerpt)
     = ''import os\<newline>import shutil\<newline>    '' @ new_block @ ''\<newline>''"
proof -
  have s: "ensure_shutil logs_excerpt = ''import os\<newline>import shutil\<newline>    '' @ old_call @ ''\<newline>''"
    unfolding excerpt_ensured by (simp add: old_call_def)
  have f: "\<not> contains old_call (''import os\<newline>import shutil\<newline>    '' @ butlast old_call)"
    by (simp add: old_call_def)
  show ?thesis
    unfolding s using old_call_nonempty f by (rule replace_first_decomp)
qed

lemma excerpt_run:
  "fix_adk_logs_patch example_env (installed logs_excerpt) =
    print Advice (print Patched
      (write_text example_target (''import os\<newline>import shutil\<newline>    '' @ new_block @ ''\<newline>'')
        (write_text (butlast example_target @ [''logs.py.bak_20260307_093005''])
           ''import os\<newline>import shutil\<newline>    os.symlink(log_filepath, latest_log_link)\<newline>''
           (print (WritingBackup (butlast example_target @ [''logs.py.bak_20260307_093005'']))
              (print (TargetFile example_target) (start (installed logs_excerpt)))))))"
proof -
  have c: "contains old_call (ensure_shutil logs_excerpt)"
    using excerpt_facts(2) by (simp add: ensure_shutil_old_call)
  have n: "''logs.py.bak_'' @ ''20260307_093005'' = ''logs.py.bak_20260307_093005''"
    by simp
  show ?thesis
    by (rule run_patched [where fs = "installed logs_excerpt" and env = example_env,
      OF example_installed excerpt_facts(1) c,
      unfolded excerpt_patched, unfolded example_locate example_stamp excerpt_ensured,
      unfolded n])
qed

text \<open>
  Claim C2 at the excerpt that imports \<^verbatim>\<open>os\<close> and not \<^verbatim>\<open>shutil\<close>: the run patches, and
  the text it writes to the backup has the \<^verbatim>\<open>import shutil\<close> line in it, which the file
  did not have before the run. The backup is written from \<^verbatim>\<open>orig\<close> after the import step
  has rebound it.
\<close>

theorem backup_differs_example:
  "\<not> contains marker logs_excerpt \<and> contains old_call logs_excerpt
   \<and> installed logs_excerpt example_target = Some (Text logs_excerpt)
   \<and> exit_status (fix_adk_logs_patch example_env (installed logs_excerpt)) = 0
   \<and> writes (fix_adk_logs_patch example_env (installed logs_excerpt)) =
       [(butlast example_target @ [''logs.py.bak_20260307_093005''],
         ''import os\<newline>import shutil\<newline>    os.symlink(log_filepath, latest_log_link)\<newline>''),
        (example_target, ''import os\<newline>import shutil\<newline>    '' @ new_block @ ''\<newline>'')]
   \<and> ''import os\<newline>import shutil\<newline>    os.symlink(log_filepath, latest_log_link)\<newline>''
       \<noteq> logs_excerpt"
proof -
  have "installed logs_excerpt example_target = Some (Text logs_excerpt)"
    by (simp add: installed_def)
  moreover have "exit_status (fix_adk_logs_patch example_env (installed logs_excerpt)) = 0"
    unfolding excerpt_run by (rule patched_facts(3))
  moreover have "writes (fix_adk_logs_patch example_env (installed logs_excerpt)) =
       [(butlast example_target @ [''logs.py.bak_20260307_093005''],
         ''import os\<newline>import shutil\<newline>    os.symlink(log_filepath, latest_log_link)\<newline>''),
        (example_target, ''import os\<newline>import shutil\<newline>    '' @ new_block @ ''\<newline>'')]"
    unfolding excerpt_run by (rule patched_facts(2))
  moreover have "''import os\<newline>import shutil\<newline>    os.symlink(log_filepath, latest_log_link)\<newline>''
       \<noteq> logs_excerpt"
    by (simp add: logs_excerpt_def)
  ultimately show ?thesis using excerpt_facts(1,2) by (intro conjI)
qed

lemma patched_once_facts:
  "\<not> contains marker (''import os\<newline>import shutil\<newline>    '' @ new_block @ ''\<newline>'')"
  "contains old_call (''import os\<newline>import shutil\<newline>    '' @ new_block @ ''\<newline>'')"
  "contains ''import shutil'' (''import os\<newline>import shutil\<newline>    '' @ new_block @ ''\<newline>'')"
proof -
  have "\<not> contains marker (''import os\<newline>import shutil\<newline>    '' @ old_call @ ''\<newline>'')"
    by (simp add: marker_def old_call_def)
  with marker_line(1) marker_fresh new_block_no_marker
  show "\<not> contains marker (''import os\<newline>import shutil\<newline>    '' @ new_block @ ''\<newline>'')"
    by (rule patched_fresh)
  show "contains old_call (''import os\<newline>import shutil\<newline>    '' @ new_block @ ''\<newline>'')"
    using new_block_has_call by (rule contains_parts(2))
  have "contains ''import shutil'' ''import os\<newline>import shutil\<newline>    ''" by simp
  then show "contains ''import shutil'' (''import os\<newline>import shutil\<newline>    '' @ new_block @ ''\<newline>'')"
    by (rule contains_parts(1))
qed

lemma new_block_head: "\<not> contains old_call
    ((''import os\<newline>import shutil\<newline>    '' @ take 96 new_block) @ butlast old_call)"
  by (simp add: new_block_def old_call_def)

lemma patched_twice:
  "replace_first old_call new_block
     (ensure_shutil (''import os\<newline>import shutil\<newline>    '' @ new_block @ ''\<newline>''))
   = ''import os\<newline>import shutil\<newline>    '' @ take 96 new_block @ new_block
       @ drop 137 new_block @ ''\<newline>''"
proof -
  have k: "ensure_shutil (''import os\<newline>import shutil\<newline>    '' @ new_block @ ''\<newline>'')
      = ''import os\<newline>import shutil\<newline>    '' @ new_block @ ''\<newline>''"
    using patched_once_facts(3) by (simp add: ensure_shutil_kept)
  have "replace_first old_call new_block
      ((''import os\<newline>import shutil\<newline>    '' @ take 96 new_block) @ old_call
        @ (drop 137 new_block @ ''\<newline>''))
    = (''import os\<newline>import shutil\<newline>    '' @ take 96 new_block) @ new_block
        @ (drop 137 new_block @ ''\<newline>'')"
    using old_call_nonempty new_block_head by (rule replace_first_decomp)
  moreover have "(''import os\<newline>import shutil\<newline>    '' @ take 96 new_block) @ old_call
        @ (drop 137 new_block @ ''\<newline>'')
      = ''import os\<newline>import shutil\<newline>    '' @ new_block @ ''\<newline>''"
    using new_block_cut by (metis append.assoc)
  ultimately show ?thesis unfolding k by (simp only: append.assoc)
qed

lemma later_env:
  "locate (example_env\<lparr>now := a_minute_later\<rparr>)
     ((installed logs_excerpt)(b \<mapsto> old, example_target \<mapsto> new)) = example_target"
  "strftime (now (example_env\<lparr>now := a_minute_later\<rparr>)) = ''20260307_093105''"
proof -
  have "primary (example_env\<lparr>now := a_minute_later\<rparr>) = example_target"
    by (simp add: primary_def example_env_def example_target_def logs_under_def joinpath_def)
  then show "locate (example_env\<lparr>now := a_minute_later\<rparr>)
     ((installed logs_excerpt)(b \<mapsto> old, example_target \<mapsto> new)) = example_target"
    by (simp add: locate_def exists_path_def)
  show "strftime (now (example_env\<lparr>now := a_minute_later\<rparr>)) = ''20260307_093105''"
    by (simp add: strftime_def a_minute_later_def zfill_def decimal.simps digit_def)
qed

lemma twice_differs:
  "''import os\<newline>import shutil\<newline>    '' @ take 96 new_block @ new_block
       @ drop 137 new_block @ ''\<newline>''
   \<noteq> ''import os\<newline>import shutil\<newline>    '' @ new_block @ ''\<newline>''"
proof
  assume "''import os\<newline>import shutil\<newline>    '' @ take 96 new_block @ new_block
       @ drop 137 new_block @ ''\<newline>''
   = ''import os\<newline>import shutil\<newline>    '' @ new_block @ ''\<newline>''"
  then have "length (''import os\<newline>import shutil\<newline>    '' @ take 96 new_block @ new_block
       @ drop 137 new_block @ ''\<newline>'')
   = length (''import os\<newline>import shutil\<newline>    '' @ new_block @ ''\<newline>'')"
    by (rule arg_cong)
  then show False by (simp add: length_new_block)
qed

text \<open>
  Claim C1 at the excerpt: the first run patches and exits with 0. The text it leaves in
  the target does not hold the marker the script looks for (the comment in the inserted
  block reads differently) and still holds the call, so the second run does not take the
  early exit: it writes a backup and the target again, and the target now holds the block
  nested in the block.
\<close>

theorem second_run_patches_again:
  "exit_status (fst (run_twice example_env a_minute_later (installed logs_excerpt))) = 0
   \<and> files (fst (run_twice example_env a_minute_later (installed logs_excerpt))) example_target
       = Some (Text (''import os\<newline>import shutil\<newline>    '' @ new_block @ ''\<newline>''))
   \<and> exit_status (snd (run_twice example_env a_minute_later (installed logs_excerpt))) = 0
   \<and> writes (snd (run_twice example_env a_minute_later (installed logs_excerpt))) =
       [(butlast example_target @ [''logs.py.bak_20260307_093105''],
         ''import os\<newline>import shutil\<newline>    '' @ new_block @ ''\<newline>''),
        (example_target,
         ''import os\<newline>import shutil\<newline>    '' @ take 96 new_block @ new_block
           @ drop 137 new_block @ ''\<newline>'')]
   \<and> files (snd (run_twice example_env a_minute_later (installed logs_excerpt))) example_target
       = Some (Text (''import os\<newline>import shutil\<newline>    '' @ take 96 new_block @ new_block
           @ drop 137 new_block @ ''\<newline>''))
   \<and> ''import os\<newline>import shutil\<newline>    '' @ take 96 new_block @ new_block
           @ drop 137 new_block @ ''\<newline>''
       \<noteq> ''import os\<newline>import shutil\<newline>    '' @ new_block @ ''\<newline>''"
proof -
  let ?once = "''import os\<newline>import shutil\<newline>    '' @ new_block @ ''\<newline>''"
  let ?twice = "''import os\<newline>import shutil\<newline>    '' @ take 96 new_block @ new_block
           @ drop 137 new_block @ ''\<newline>''"
  let ?bak = "butlast example_target @ [''logs.py.bak_20260307_093005'']"
  let ?ensured = "''import os\<newline>import shutil\<newline>    os.symlink(log_filepath, latest_log_link)\<newline>''"
  let ?later = "example_env\<lparr>now := a_minute_later\<rparr>"
  let ?fs = "(installed logs_excerpt)(?bak \<mapsto> Text ?ensured, example_target \<mapsto> Text ?once)"
  have f1: "files (fix_adk_logs_patch example_env (installed logs_excerpt)) = ?fs"
    unfolding excerpt_run by (rule patched_facts(4))
  have x1: "exit_status (fix_adk_logs_patch example_env (installed logs_excerpt)) = 0"
    unfolding excerpt_run by (rule patched_facts(3))
  have t1: "?fs example_target = Some (Text ?once)" by simp
  have r: "?fs (locate ?later ?fs) = Some (Text ?once)"
    unfolding later_env(1) by (rule t1)
  have c: "contains old_call (ensure_shutil ?once)"
    using patched_once_facts(2) by (simp only: ensure_shutil_old_call)
  have k: "ensure_shutil ?once = ?once"
    using patched_once_facts(3) by (simp add: ensure_shutil_kept)
  have n: "''logs.py.bak_'' @ ''20260307_093105'' = ''logs.py.bak_20260307_093105''"
    by simp
  note run2 = run_patched [where fs = ?fs and env = ?later, OF r patched_once_facts(1) c,
      unfolded patched_twice, unfolded later_env k, unfolded n]
  have x2: "exit_status (fix_adk_logs_patch ?later ?fs) = 0"
    unfolding run2 by (rule patched_facts(3))
  have w2: "writes (fix_adk_logs_patch ?later ?fs) =
       [(butlast example_target @ [''logs.py.bak_20260307_093105''], ?once),
        (example_target, ?twice)]"
    unfolding run2 by (rule patched_facts(2))
  have t2: "files (fix_adk_logs_patch ?later ?fs) example_target = Some (Text ?twice)"
    unfolding run2 by (rule patched_facts(1))
  show ?thesis
    unfolding run_twice_def Let_def fst_conv snd_conv f1
    using x1 t1 x2 w2 t2 twice_differs by (intro conjI)
qed

end
